theory Spec2Isabelle
  imports Complex_Main "HOL-Library.Product_Lexorder" "HOL-Library.Char_ord"
    "HOL-Library.List_Lexorder"
begin

section \<open>Cells and text helpers\<close>

text \<open>
  A cell of a text column as pandas holds it after \<^verbatim>\<open>read_csv\<close>: \<open>None\<close> is the
  missing value (NaN), \<open>Some s\<close> the text. A \<open>char\<close> stands for a code point below 256.
\<close>

type_synonym cell = "string option"

definition isspace :: "char \<Rightarrow> bool" where
  \<comment> \<open>the code points below 256 that Python's \<^verbatim>\<open>str.strip()\<close> removes\<close>
  "isspace c = ((of_char c :: nat) \<in> {9, 10, 11, 12, 13, 28, 29, 30, 31, 32, 133, 160})"

definition strip :: "string \<Rightarrow> string" where
  "strip s = rev (dropWhile isspace (rev (dropWhile isspace s)))"

definition lower_char :: "char \<Rightarrow> char" where
  \<comment> \<open>\<^verbatim>\<open>str.lower()\<close> on one code point below 256\<close>
  "lower_char c =
     (let n = (of_char c :: nat)
      in if (65 \<le> n \<and> n \<le> 90) \<or> (192 \<le> n \<and> n \<le> 222 \<and> n \<noteq> 215)
         then char_of (n + 32) else c)"

definition lower :: "string \<Rightarrow> string" where
  "lower s = map lower_char s"

definition remove_spaces :: "string \<Rightarrow> string" where
  \<comment> \<open>\<^verbatim>\<open>.replace(" ", "")\<close>\<close>
  "remove_spaces s = filter (\<lambda>c. c \<noteq> CHR '' '') s"

definition astype_str :: "cell \<Rightarrow> string" where
  \<comment> \<open>\<^verbatim>\<open>Series.astype(str)\<close>: a missing cell becomes the text nan\<close>
  "astype_str c = (case c of None \<Rightarrow> ''nan'' | Some s \<Rightarrow> s)"

section \<open>Email normalization\<close>

text \<open>
  The keys of \<^verbatim>\<open>COMMON_DOMAIN_FIXES\<close> are regular expressions made of literal
  characters and dots, each ending in \<^verbatim>\<open>$\<close>. Four of the five are raw strings with a
  doubled backslash: \<^verbatim>\<open>r"@ucsc\\.efu$"\<close> is the expression \<^verbatim>\<open>@ucsc\\.efu$\<close>, that is
  an escaped (literal) backslash followed by an unescaped dot, which matches any
  character except a newline.
\<close>

datatype pat = Lit char | Dot

fun match_here :: "pat list \<Rightarrow> string \<Rightarrow> string option" where
  "match_here [] s = Some s"
| "match_here (p # ps) [] = None"
| "match_here (Lit c # ps) (x # xs) = (if x = c then match_here ps xs else None)"
| "match_here (Dot # ps) (x # xs) = (if x \<noteq> CHR 0x0A then match_here ps xs else None)"

definition at_end :: "string \<Rightarrow> bool" where
  \<comment> \<open>\<^verbatim>\<open>$\<close> without MULTILINE: the end of the text, or just before a final newline\<close>
  "at_end rest = (rest = [] \<or> rest = [CHR 0x0A])"

fun re_sub :: "pat list \<Rightarrow> string \<Rightarrow> string \<Rightarrow> string" where
  \<comment> \<open>\<^verbatim>\<open>re.sub(bad, good, e)\<close> for a non-empty pattern ending in \<^verbatim>\<open>$\<close>: the text is
     scanned from the left; a match that reaches the end leaves nothing to match again\<close>
  "re_sub bad good [] = []"
| "re_sub bad good (x # xs) =
     (case match_here bad (x # xs) of
        Some rest \<Rightarrow> if at_end rest then good @ rest else x # re_sub bad good xs
      | None \<Rightarrow> x # re_sub bad good xs)"

definition COMMON_DOMAIN_FIXES :: "(pat list \<times> string) list" where
  "COMMON_DOMAIN_FIXES =
     [ (map Lit ''@ucscedu'', ''@ucsc.edu''),
       (map Lit ''@ucsc'' @ [Lit (CHR 0x5C), Dot] @ map Lit ''efu'', ''@ucsc.edu''),
       (map Lit ''@ucsc'' @ [Lit (CHR 0x5C), Dot] @ map Lit ''irg'', ''@ucsc.edu''),
       (map Lit ''@uscs'' @ [Lit (CHR 0x5C), Dot] @ map Lit ''edu'', ''@ucsc.edu''),
       (map Lit ''@gmail'' @ [Lit (CHR 0x5C), Dot] @ map Lit ''con'', ''@gmail.com'') ]"

definition normalize_email :: "cell \<Rightarrow> cell" where
  "normalize_email email =
     (case email of
        None \<Rightarrow> None
      | Some s \<Rightarrow>
          Some (fold (\<lambda>(bad, good) e. re_sub bad good e) COMMON_DOMAIN_FIXES
                  (remove_spaces (lower (strip s)))))"

section \<open>Loading the attendance table\<close>

datatype error = ValueError | KeyError | TypeError | AttributeError

text \<open>
  A calendar date is its day number and a timestamp its count of nanoseconds, both from
  the same epoch; \<open>None\<close> is NaT. The header scan of \<^verbatim>\<open>load_attendance\<close> is given by
  its outcome: which of the four columns were found. \<open>raw_timestamp\<close> is what
  \<^verbatim>\<open>to_dt\<close> makes of the timestamp cell.
\<close>

type_synonym date = int
type_synonym timestamp = int

record raw_row =
  raw_timestamp :: "timestamp option"
  raw_email :: cell
  raw_id :: cell
  raw_name :: cell

record raw_table =
  ts_col_found :: bool
  email_col_found :: bool
  id_col_found :: bool
  name_col_found :: bool
  raw_rows :: "raw_row list"

record att_row =
  att_ts :: "timestamp option"
  att_date :: "date option"
  att_email :: cell
  att_id :: cell
  att_name :: cell
  att_identity :: cell

definition date_of :: "timestamp \<Rightarrow> date" where
  "date_of t = t div 86400000000000"

definition notna_nonempty :: "cell \<Rightarrow> bool" where
  \<comment> \<open>\<^verbatim>\<open>col.notna() & (col != "")\<close>\<close>
  "notna_nonempty c = (c \<noteq> None \<and> c \<noteq> Some [])"

definition load_row :: "raw_table \<Rightarrow> raw_row \<Rightarrow> att_row" where
  "load_row t r =
     (let e = (if email_col_found t then normalize_email (raw_email r) else None);
          i = (if id_col_found t then Some (strip (astype_str (raw_id r))) else None);
          n = (if name_col_found t then Some (strip (astype_str (raw_name r))) else None)
      in \<lparr> att_ts = raw_timestamp r,
           att_date = map_option date_of (raw_timestamp r),
           att_email = e, att_id = i, att_name = n,
           att_identity = (if notna_nonempty i then i
                           else if notna_nonempty e then e else n) \<rparr>)"

definition load_attendance :: "raw_table \<Rightarrow> error + att_row list" where
  "load_attendance t =
     (if \<not> ts_col_found t \<or> (\<not> email_col_found t \<and> \<not> id_col_found t) then Inl ValueError
      else Inr (map (load_row t) (raw_rows t)))"

section \<open>Window filter and deduplication\<close>

text \<open>
  \<^verbatim>\<open>filter_weeks\<close> parses its two bounds with \<^verbatim>\<open>pd.to_datetime\<close>, which raises on
  text that is no date: a bound is given here as the parsed date, \<open>None\<close> for such text.
  The table is one that \<^verbatim>\<open>load_attendance\<close> returns. When it has rows and none of them
  has a date, its \<^verbatim>\<open>__date\<close> column is a datetime column (all NaT), and comparing that
  column with a date raises TypeError. Otherwise the column holds date objects and NaT,
  the comparison of a NaT cell with a date is False, and rows without a date are left out.
\<close>

definition in_window :: "date \<Rightarrow> date \<Rightarrow> att_row \<Rightarrow> bool" where
  "in_window start end r =
     (case att_date r of None \<Rightarrow> False | Some d \<Rightarrow> start \<le> d \<and> d \<le> end)"

definition filter_weeks :: "att_row list \<Rightarrow> date option \<Rightarrow> date option \<Rightarrow> error + att_row list" where
  "filter_weeks df start_iso end_iso =
     (case start_iso of
        None \<Rightarrow> Inl ValueError
      | Some start \<Rightarrow>
          (case end_iso of
             None \<Rightarrow> Inl ValueError
           | Some end \<Rightarrow>
               if df \<noteq> [] \<and> list_all (\<lambda>r. att_date r = None) df then Inl TypeError
               else Inr (filter (in_window start end) df)))"

text \<open>
  \<^verbatim>\<open>sort_values\<close> puts missing values last; on two columns it sorts through a stable
  lexicographic indexer. The key of a cell is \<open>(0, v)\<close> for a value and \<open>(1, 0)\<close> for
  a missing one, ordered lexicographically.
\<close>

definition na_last :: "int option \<Rightarrow> nat \<times> int" where
  "na_last c = (case c of None \<Rightarrow> (1, 0) | Some v \<Rightarrow> (0, v))"

definition date_ts_key :: "att_row \<Rightarrow> (nat \<times> int) \<times> (nat \<times> int)" where
  "date_ts_key r = (na_last (att_date r), na_last (att_ts r))"

fun drop_dups :: "('a \<Rightarrow> 'k) \<Rightarrow> 'k list \<Rightarrow> 'a list \<Rightarrow> 'a list" where
  "drop_dups k seen [] = []"
| "drop_dups k seen (x # xs) =
     (if k x \<in> set seen then drop_dups k seen xs else x # drop_dups k (k x # seen) xs)"

definition drop_duplicates :: "('a \<Rightarrow> 'k) \<Rightarrow> 'a list \<Rightarrow> 'a list" where
  \<comment> \<open>\<^verbatim>\<open>drop_duplicates(subset=..., keep="first")\<close>; missing values count as equal\<close>
  "drop_duplicates k xs = drop_dups k [] xs"

definition identity_date :: "att_row \<Rightarrow> cell \<times> date option" where
  "identity_date r = (att_identity r, att_date r)"

definition dedup_same_day :: "att_row list \<Rightarrow> att_row list" where
  "dedup_same_day df = drop_duplicates identity_date (sort_key date_ts_key df)"

definition window_dedup :: "att_row list \<Rightarrow> date option \<Rightarrow> date option \<Rightarrow> error + att_row list" where
  \<comment> \<open>\<^verbatim>\<open>dedup_same_day(filter_weeks(att, start, end))\<close>, as both callers run it\<close>
  "window_dedup df start_iso end_iso =
     (case filter_weeks df start_iso end_iso of
        Inl err \<Rightarrow> Inl err
      | Inr w \<Rightarrow> Inr (dedup_same_day w))"

section \<open>Attendance aggregation\<close>

record counts_row =
  cnt_identity :: string
  attended_dates :: "date option list"
  total_count :: int
  week1_count :: int
  week2_count :: int
  max_possible :: int
  percentage :: rat
  cnt_email :: cell
  cnt_id :: cell
  cnt_name :: cell

definition dropna :: "'a option list \<Rightarrow> 'a list" where
  "dropna xs = concat (map (\<lambda>x. case x of None \<Rightarrow> [] | Some v \<Rightarrow> [v]) xs)"

definition sorted_set :: "date option list \<Rightarrow> error + date option list" where
  \<comment> \<open>\<^verbatim>\<open>sorted(set(s))\<close>: ordering NaT against a date raises TypeError; NaT alone is
     a set of one element\<close>
  "sorted_set s =
     (if None \<in> set s
      then (if dropna s = [] then Inr [None] else Inl TypeError)
      else Inr (map Some (sort (remdups (dropna s)))))"

definition count_in_week :: "date option list \<Rightarrow> date list \<Rightarrow> int" where
  \<comment> \<open>\<^verbatim>\<open>sum(1 for d in dates if d in week)\<close>\<close>
  "count_in_week dates week =
     sum_list (map (\<lambda>d. 1)
       (filter (\<lambda>d. case d of None \<Rightarrow> False | Some v \<Rightarrow> v \<in> set week) dates))"

definition slice :: "nat \<Rightarrow> nat \<Rightarrow> 'a list \<Rightarrow> 'a list" where
  \<comment> \<open>\<^verbatim>\<open>xs[i:j]\<close> for \<open>i \<le> j\<close>\<close>
  "slice i j xs = take (j - i) (drop i xs)"

fun traverse :: "('a \<Rightarrow> error + 'b) \<Rightarrow> 'a list \<Rightarrow> error + 'b list" where
  "traverse f [] = Inr []"
| "traverse f (x # xs) =
     (case f x of
        Inl err \<Rightarrow> Inl err
      | Inr y \<Rightarrow> (case traverse f xs of Inl err \<Rightarrow> Inl err | Inr ys \<Rightarrow> Inr (y # ys)))"

definition group_row :: "att_row list \<Rightarrow> date list \<Rightarrow> date list \<Rightarrow> string \<Rightarrow> error + counts_row" where
  \<comment> \<open>one group of \<^verbatim>\<open>groupby(["__identity"])\<close> with the columns added after it; the
     display cells come from the first row of the identity in the table's own order\<close>
  "group_row df_weeks week1 week2 k =
     (case sorted_set (map att_date (filter (\<lambda>r. att_identity r = Some k) df_weeks)) of
        Inl err \<Rightarrow> Inl err
      | Inr ds \<Rightarrow>
          (let w1 = count_in_week ds week1;
               w2 = count_in_week ds week2;
               first = List.find (\<lambda>r. att_identity r = Some k) df_weeks
           in Inr \<lparr> cnt_identity = k,
                    attended_dates = ds,
                    total_count = int (length ds),
                    week1_count = w1,
                    week2_count = w2,
                    max_possible = 6,
                    percentage = of_int (w1 + w2) / of_int 6 * 100,
                    cnt_email = (case first of None \<Rightarrow> None | Some r \<Rightarrow> att_email r),
                    cnt_id = (case first of None \<Rightarrow> None | Some r \<Rightarrow> att_id r),
                    cnt_name = (case first of None \<Rightarrow> None | Some r \<Rightarrow> att_name r) \<rparr>))"

definition compute_counts ::
  "att_row list \<Rightarrow> error + (counts_row list \<times> date list \<times> date list \<times> date list)" where
  \<comment> \<open>groups come out sorted by identity; rows without an identity form no group\<close>
  "compute_counts df_weeks =
     (let lecture_dates = sort (remdups (dropna (map att_date df_weeks)));
          week1 = (if length lecture_dates \<ge> 3 then slice 0 3 lecture_dates else lecture_dates);
          week2 = (if length lecture_dates \<ge> 6 then slice 3 6 lecture_dates
                   else drop 3 lecture_dates)
      in case traverse (group_row df_weeks week1 week2)
                (sort (remdups (dropna (map att_identity df_weeks)))) of
           Inl err \<Rightarrow> Inl err
         | Inr out \<Rightarrow> Inr (out, lecture_dates, week1, week2))"

section \<open>Roster\<close>

text \<open>
  A gradebook file is read as a table of text columns. Of its columns only the four that
  the program looks at are kept: \<open>Student\<close>, \<open>ID\<close>, \<open>SIS Login ID\<close> and \<open>Email\<close>, any of
  which may be absent. \<^verbatim>\<open>load_gradebook_csv\<close> adds the normalized key columns. A table
  has a list of column labels; a row has a field for every label the program knows, and
  the field of an absent column is \<open>None\<close>.
\<close>

record gradebook_row =
  gb_Student :: cell
  gb_ID :: cell
  gb_SIS_Login_ID :: cell
  gb_Email :: cell

record gradebook =
  Student_col :: bool
  ID_col :: bool
  SIS_Login_ID_col :: bool
  Email_col :: bool
  gradebook_rows :: "gradebook_row list"

record roster_row =
  Student :: cell
  ID :: cell
  SIS_Login_ID :: cell
  Email :: cell
  Email_norm :: cell
  SIS_Login_ID_norm :: cell
  ID_str :: cell
  disp_name :: cell

record roster =
  columns :: "string list"
  rows :: "roster_row list"

definition load_gradebook_row :: "gradebook \<Rightarrow> gradebook_row \<Rightarrow> roster_row" where
  "load_gradebook_row gb r =
     \<lparr> Student = (if Student_col gb then gb_Student r else None),
       ID = (if ID_col gb then gb_ID r else None),
       SIS_Login_ID = (if SIS_Login_ID_col gb then gb_SIS_Login_ID r else None),
       Email = (if Email_col gb then gb_Email r else None),
       Email_norm = (if Email_col gb then normalize_email (gb_Email r) else None),
       SIS_Login_ID_norm =
         (if SIS_Login_ID_col gb then normalize_email (gb_SIS_Login_ID r) else None),
       ID_str = (if ID_col gb then Some (strip (astype_str (gb_ID r))) else None),
       disp_name = (if Student_col gb then Some (strip (astype_str (gb_Student r))) else None) \<rparr>"

definition load_gradebook_csv :: "gradebook \<Rightarrow> roster" where
  "load_gradebook_csv gb =
     \<lparr> columns =
         (if Student_col gb then [''Student''] else []) @
         (if ID_col gb then [''ID''] else []) @
         (if SIS_Login_ID_col gb then [''SIS Login ID''] else []) @
         (if Email_col gb then [''Email''] else []) @
         (if Email_col gb then [''Email_norm''] else []) @
         (if SIS_Login_ID_col gb then [''SIS Login ID_norm''] else []) @
         (if ID_col gb then [''ID_str''] else []) @
         [''__disp_name''],
       rows = map (load_gradebook_row gb) (gradebook_rows gb) \<rparr>"

section \<open>Roster join\<close>

text \<open>
  A merged frame keeps, for each of its rows, the roster part and the counts part; a part
  that is \<open>None\<close> stands for cells that are all missing. \<^verbatim>\<open>merge(..., how="left")\<close>
  keeps the order of the left rows, gives one row for each right row with an equal key
  (a missing key equals a missing key), and one row with a missing right part when there
  is none.

  A key column made by \<^verbatim>\<open>map(normalize_email)\<close> or \<^verbatim>\<open>astype(str)\<close> is a text column when
  one of its cells is text, and a float column when it has rows and all of them are
  missing. \<^verbatim>\<open>merge\<close> refuses to join a text key with a float key (ValueError), unless one
  of the two tables has no rows.

  A coverage is a Python float: the mean of an empty column is NaN, and every comparison
  with NaN is False. Other values are kept as exact fractions.
\<close>

record frame =
  frame_columns :: "string list"
  frame_rows :: "(roster_row option \<times> counts_row option) list"

datatype pyfloat = NaN | Num rat

definition float_ge :: "pyfloat \<Rightarrow> pyfloat \<Rightarrow> bool" where
  "float_ge a b = (case a of NaN \<Rightarrow> False
                   | Num x \<Rightarrow> (case b of NaN \<Rightarrow> False | Num y \<Rightarrow> x \<ge> y))"

definition counts_columns :: "string list" where
  "counts_columns = [''__identity'', ''attended_dates'', ''total_count'', ''week1_count'',
     ''week2_count'', ''max_possible'', ''percentage'', ''__email'', ''__id'', ''__name'']"

definition left_merge ::
  "(roster_row \<Rightarrow> cell) \<Rightarrow> (counts_row \<Rightarrow> cell) \<Rightarrow> roster_row list \<Rightarrow> counts_row list
     \<Rightarrow> (roster_row option \<times> counts_row option) list" where
  "left_merge left_on right_on ls rs =
     concat (map (\<lambda>l. case filter (\<lambda>r. right_on r = left_on l) rs of
                         [] \<Rightarrow> [(Some l, None)]
                       | ms \<Rightarrow> map (\<lambda>r. (Some l, Some r)) ms) ls)"

definition merge_roster ::
  "roster \<Rightarrow> (roster_row \<Rightarrow> cell) \<Rightarrow> (counts_row \<Rightarrow> cell) \<Rightarrow> string list
     \<Rightarrow> counts_row list \<Rightarrow> frame" where
  "merge_roster roster left_on right_on extra x =
     \<lparr> frame_columns = columns roster @ counts_columns @ extra,
       frame_rows = left_merge left_on right_on (rows roster) x \<rparr>"

definition all_missing :: "cell list \<Rightarrow> bool" where
  "all_missing ks = list_all (\<lambda>k. k = None) ks"

definition key_dtypes_clash :: "cell list \<Rightarrow> cell list \<Rightarrow> bool" where
  "key_dtypes_clash lk rk = (lk \<noteq> [] \<and> rk \<noteq> [] \<and> all_missing lk \<noteq> all_missing rk)"

definition roster_merge ::
  "roster \<Rightarrow> (roster_row \<Rightarrow> cell) \<Rightarrow> (counts_row \<Rightarrow> cell) \<Rightarrow> string list
     \<Rightarrow> counts_row list \<Rightarrow> error + frame" where
  \<comment> \<open>\<^verbatim>\<open>roster.merge(x, left_on=..., right_on=..., how="left")\<close>\<close>
  "roster_merge roster left_on right_on extra x =
     (if key_dtypes_clash (map left_on (rows roster)) (map right_on x) then Inl ValueError
      else Inr (merge_roster roster left_on right_on extra x))"

definition matched :: "frame \<Rightarrow> pyfloat" where
  \<comment> \<open>\<^verbatim>\<open>(~m["week1_count"].isna()).mean() * 100.0\<close>\<close>
  "matched m =
     (if frame_rows m = [] then NaN
      else Num (of_nat (length (filter (\<lambda>row. snd row \<noteq> None) (frame_rows m)))
                / of_nat (length (frame_rows m)) * 100))"

definition with_coverage :: "error + frame \<Rightarrow> error + frame option \<times> pyfloat" where
  \<comment> \<open>\<^verbatim>\<open>return m, matched\<close> after a merge that did not raise\<close>
  "with_coverage r = (case r of Inl err \<Rightarrow> Inl err | Inr m \<Rightarrow> Inr (Some m, matched m))"

definition id_key :: "counts_row \<Rightarrow> cell" where
  \<comment> \<open>\<^verbatim>\<open>x["__id"].astype(str).str.strip()\<close>\<close>
  "id_key c = Some (strip (astype_str (cnt_id c)))"

definition email_key :: "counts_row \<Rightarrow> cell" where
  \<comment> \<open>\<^verbatim>\<open>x["__email"].map(normalize_email)\<close>\<close>
  "email_key c = normalize_email (cnt_email c)"

definition join_id :: "counts_row list \<Rightarrow> roster \<Rightarrow> error + frame option \<times> pyfloat" where
  "join_id counts_out roster =
     (if ''ID_str'' \<notin> set (columns roster) then Inr (None, Num 0)
      else with_coverage (roster_merge roster ID_str id_key [] counts_out))"

definition join_email :: "counts_row list \<Rightarrow> roster \<Rightarrow> error + frame option \<times> pyfloat" where
  "join_email counts_out roster =
     (if ''SIS Login ID_norm'' \<in> set (columns roster)
      then with_coverage
             (roster_merge roster SIS_Login_ID_norm email_key [''__email_norm''] counts_out)
      else if ''Email_norm'' \<in> set (columns roster)
      then with_coverage (roster_merge roster Email_norm email_key [''__email_norm''] counts_out)
      else Inr (None, Num 0))"

definition try_join_modes ::
  "counts_row list \<Rightarrow> roster \<Rightarrow> error + frame option \<times> string \<times> pyfloat" where
  \<comment> \<open>\<^verbatim>\<open>join_id()\<close> runs first, then \<^verbatim>\<open>join_email()\<close>; what either raises is raised\<close>
  "try_join_modes counts_out roster =
     (case join_id counts_out roster of
        Inl err \<Rightarrow> Inl err
      | Inr (id_m, id_cov) \<Rightarrow>
          (case join_email counts_out roster of
             Inl err \<Rightarrow> Inl err
           | Inr (em_m, em_cov) \<Rightarrow>
               Inr (if float_ge em_cov id_cov then (em_m, ''email'', em_cov)
                    else (id_m, ''id'', id_cov))))"

section \<open>Finalization\<close>

record out_row =
  out_Student :: cell
  out_ID :: cell
  out_SIS_Login_ID :: cell
  out_Email :: cell
  out_week1_count :: "rat option"
  out_week2_count :: "rat option"
  out_total_count :: "rat option"
  out_max_possible :: "rat option"
  out_percentage :: "rat option"

record out_frame =
  out_columns :: "string list"
  out_rows :: "out_row list"

definition fillna :: "rat \<Rightarrow> rat option \<Rightarrow> rat" where
  "fillna d v = (case v of None \<Rightarrow> d | Some x \<Rightarrow> x)"

definition numeric :: "string list \<Rightarrow> string \<Rightarrow> rat \<Rightarrow> (counts_row \<Rightarrow> rat)
     \<Rightarrow> counts_row option \<Rightarrow> rat option" where
  \<comment> \<open>a numeric column of the result: filled where the frame has it, absent otherwise\<close>
  "numeric cols col d f c =
     (if col \<in> set cols then Some (fillna d (map_option f c)) else None)"

definition text_of :: "string list \<Rightarrow> string \<Rightarrow> ('a \<Rightarrow> cell) \<Rightarrow> 'a option \<Rightarrow> cell" where
  "text_of cols col f part =
     (if col \<in> set cols then (case part of None \<Rightarrow> None | Some p \<Rightarrow> f p) else None)"

definition finalize_row :: "string list \<Rightarrow> roster_row option \<times> counts_row option \<Rightarrow> out_row" where
  "finalize_row cols row =
     (case row of (r, c) \<Rightarrow>
       \<lparr> out_Student =
           (if ''__disp_name'' \<in> set cols then text_of cols ''__disp_name'' disp_name r
            else text_of cols ''__name'' cnt_name c),
         out_ID = text_of cols ''ID_str'' ID_str r,
         out_SIS_Login_ID = text_of cols ''SIS Login ID'' SIS_Login_ID r,
         out_Email = text_of cols ''Email'' Email r,
         out_week1_count = numeric cols ''week1_count'' 0 (\<lambda>c. of_int (week1_count c)) c,
         out_week2_count = numeric cols ''week2_count'' 0 (\<lambda>c. of_int (week2_count c)) c,
         out_total_count = numeric cols ''total_count'' 0 (\<lambda>c. of_int (total_count c)) c,
         out_max_possible = numeric cols ''max_possible'' 6 (\<lambda>c. of_int (max_possible c)) c,
         out_percentage = numeric cols ''percentage'' 0 percentage c \<rparr>)"

definition rename_col :: "string \<Rightarrow> string \<Rightarrow> string" where
  "rename_col name_col c =
     (if c = name_col then ''Student'' else if c = ''ID_str'' then ''ID'' else c)"

definition finalize_output :: "frame option \<Rightarrow> error + out_frame" where
  \<comment> \<open>on \<^verbatim>\<open>None\<close> the first \<^verbatim>\<open>merged.columns\<close> raises AttributeError\<close>
  "finalize_output merged =
     (case merged of
        None \<Rightarrow> Inl AttributeError
      | Some m \<Rightarrow>
          (let cols = frame_columns m;
               name_col = (if ''__disp_name'' \<in> set cols then ''__disp_name'' else ''__name'');
               keep = filter (\<lambda>c. c \<in> set cols)
                        [name_col, ''ID_str'', ''SIS Login ID'', ''Email'', ''week1_count'',
                         ''week2_count'', ''total_count'', ''max_possible'', ''percentage'']
           in Inr \<lparr> out_columns = map (rename_col name_col) keep,
                    out_rows = map (finalize_row cols) (frame_rows m) \<rparr>))"

definition finalize_merged :: "error + frame \<Rightarrow> error + out_frame" where
  \<comment> \<open>\<^verbatim>\<open>finalize_output(merged)\<close> after a merge that did not raise\<close>
  "finalize_merged r = (case r of Inl err \<Rightarrow> Inl err | Inr m \<Rightarrow> finalize_output (Some m))"

definition run_processing_join :: "string \<Rightarrow> counts_row list \<Rightarrow> roster \<Rightarrow> error + out_frame" where
  \<comment> \<open>the branch of \<^verbatim>\<open>_run_processing\<close> (and of \<^verbatim>\<open>cmd_process\<close>) taken when a
     gradebook is supplied; a merge on a column the roster lacks raises KeyError\<close>
  "run_processing_join join_mode counts_out roster =
     (if join_mode = ''auto'' then
        (case try_join_modes counts_out roster of
           Inl err \<Rightarrow> Inl err
         | Inr (merged, mode, coverage) \<Rightarrow> finalize_output merged)
      else if join_mode = ''id'' then
        (if ''ID_str'' \<in> set (columns roster)
         then finalize_merged (roster_merge roster ID_str id_key [] counts_out)
         else Inl KeyError)
      else if join_mode = ''email'' then
        (if ''SIS Login ID_norm'' \<in> set (columns roster)
         then finalize_merged
                (roster_merge roster SIS_Login_ID_norm email_key [''__email_norm''] counts_out)
         else if ''Email_norm'' \<in> set (columns roster)
         then finalize_merged
                (roster_merge roster Email_norm email_key [''__email_norm''] counts_out)
         else Inl KeyError)
      else
        finalize_output
          (Some \<lparr> frame_columns = counts_columns,
                  frame_rows = map (\<lambda>c. (None, Some c)) counts_out \<rparr>))"

section \<open>Matrix\<close>

text \<open>
  \<^verbatim>\<open>write_matrix\<close> builds the frame \<^verbatim>\<open>mat\<close> and writes its columns Student, ID, Email,
  the selected dates, total_count, max_possible and percentage. A row of the model is a
  row of \<^verbatim>\<open>mat\<close>: \<open>mat_identity\<close> is its \<^verbatim>\<open>__identity\<close> cell, which is not written, and
  \<open>mat_dates\<close> holds the date columns in the order of \<^verbatim>\<open>six_dates\<close>, which has no date
  twice. \<^verbatim>\<open>fillna(0)\<close> turns every missing cell into the number 0. The pivot table has
  no row for a missing identity and no column for a missing date. Sorting on the single
  column \<^verbatim>\<open>__ts\<close> puts missing timestamps last.
\<close>

datatype filled = Zero | Text string

definition fillna0 :: "cell \<Rightarrow> filled" where
  "fillna0 c = (case c of None \<Rightarrow> Zero | Some s \<Rightarrow> Text s)"

record matrix_row =
  mat_identity :: filled
  mat_Student :: filled
  mat_ID :: filled
  mat_Email :: filled
  mat_dates :: "rat list"
  mat_total_count :: rat
  mat_max_possible :: rat
  mat_percentage :: rat

definition ts_key :: "att_row \<Rightarrow> nat \<times> int" where
  "ts_key r = na_last (att_ts r)"

definition indicator :: "att_row list \<Rightarrow> cell \<Rightarrow> date \<Rightarrow> rat" where
  \<comment> \<open>the cell of the pivot table joined to a row of \<^verbatim>\<open>mini\<close>, after \<^verbatim>\<open>fillna(0)\<close>\<close>
  "indicator df_weeks i d =
     (case i of
        None \<Rightarrow> 0
      | Some k \<Rightarrow>
          (if (Some k, Some d) \<in> set (map identity_date (drop_duplicates identity_date df_weeks))
           then 1 else 0))"

definition matrix_row_of :: "att_row list \<Rightarrow> date list \<Rightarrow> att_row \<Rightarrow> matrix_row" where
  "matrix_row_of df_weeks six_dates r =
     (let vals = map (indicator df_weeks (att_identity r)) six_dates;
          total = sum_list vals
      in \<lparr> mat_identity = fillna0 (att_identity r),
           mat_Student = fillna0 (att_name r),
           mat_ID = fillna0 (att_id r),
           mat_Email = fillna0 (att_email r),
           mat_dates = vals,
           mat_total_count = total,
           mat_max_possible = 6,
           mat_percentage = total / 6 * 100 \<rparr>)"

definition write_matrix :: "att_row list \<Rightarrow> date list \<Rightarrow> matrix_row list" where
  "write_matrix df_weeks six_dates =
     (let mini = drop_duplicates att_identity (sort_key ts_key df_weeks)
      in map (matrix_row_of df_weeks six_dates) mini)"

section \<open>Predicates on finalized rows\<close>

definition carries :: "roster_row \<Rightarrow> out_row \<Rightarrow> bool" where
  \<comment> \<open>the finalized row shows the roster row's name, ID, login and email\<close>
  "carries r out \<longleftrightarrow>
     out_Student out = disp_name r \<and> out_ID out = ID_str r \<and>
     out_SIS_Login_ID out = SIS_Login_ID r \<and> out_Email out = Email r"

definition zero_filled :: "out_row \<Rightarrow> bool" where
  "zero_filled out \<longleftrightarrow>
     out_week1_count out = Some 0 \<and> out_week2_count out = Some 0 \<and>
     out_total_count out = Some 0 \<and> out_percentage out = Some 0 \<and>
     out_max_possible out = Some 6"

definition counts_filled :: "counts_row \<Rightarrow> out_row \<Rightarrow> bool" where
  \<comment> \<open>the finalized row shows the numbers of the counts row\<close>
  "counts_filled c out \<longleftrightarrow>
     out_week1_count out = Some (of_int (week1_count c)) \<and>
     out_week2_count out = Some (of_int (week2_count c)) \<and>
     out_total_count out = Some (of_int (total_count c)) \<and>
     out_percentage out = Some (percentage c) \<and>
     out_max_possible out = Some (of_int (max_possible c))"

section \<open>Example inputs\<close>

definition check_in :: "timestamp \<Rightarrow> date \<Rightarrow> string \<Rightarrow> string \<Rightarrow> att_row" where
  "check_in t d i n =
     \<lparr> att_ts = Some t, att_date = Some d, att_email = None, att_id = Some i,
       att_name = Some n, att_identity = Some i \<rparr>"

definition example_table :: "att_row list" where
  \<comment> \<open>student 1 checks in twice on day 1 and once on day 3, student 2 once on day 1\<close>
  "example_table =
     [ check_in 86400000000200 1 ''1'' ''S1'',
       check_in 86400000000100 1 ''1'' ''S1'',
       check_in 86400000000050 1 ''2'' ''S2'',
       check_in 259200000000300 3 ''1'' ''S1'' ]"

definition example_windowed :: "att_row list" where
  "example_windowed =
     [ check_in 86400000000050 1 ''2'' ''S2'',
       check_in 86400000000100 1 ''1'' ''S1'',
       check_in 259200000000300 3 ''1'' ''S1'' ]"

definition example_counts :: "counts_row list" where
  "example_counts =
     [ \<lparr> cnt_identity = ''7'', attended_dates = [Some 1], total_count = 1, week1_count = 1,
         week2_count = 0, max_possible = 6, percentage = 50 / 3,
         cnt_email = Some ''bob@ucsc.edu'', cnt_id = Some ''7'', cnt_name = Some ''Bob'' \<rparr> ]"




definition names_only_gradebook :: gradebook where
  "names_only_gradebook =
     \<lparr> Student_col = True, ID_col = False, SIS_Login_ID_col = False, Email_col = False,
       gradebook_rows =
         [ \<lparr> gb_Student = Some ''Ann'', gb_ID = None, gb_SIS_Login_ID = None,
             gb_Email = None \<rparr> ] \<rparr>"

definition id_only_gradebook :: gradebook where
  \<comment> \<open>a roster with the columns Student and ID; its one student matches no counts row\<close>
  "id_only_gradebook =
     \<lparr> Student_col = True, ID_col = True, SIS_Login_ID_col = False, Email_col = False,
       gradebook_rows =
         [ \<lparr> gb_Student = Some ''Ann'', gb_ID = Some ''1'', gb_SIS_Login_ID = None,
             gb_Email = None \<rparr> ] \<rparr>"

definition example_attendance_csv :: raw_table where
  \<comment> \<open>a file with the columns Timestamp, Email, ID and Name whose one row has an empty
     ID cell\<close>
  "example_attendance_csv =
     \<lparr> ts_col_found = True, email_col_found = True, id_col_found = True,
       name_col_found = True,
       raw_rows = [ \<lparr> raw_timestamp = Some 86400000000100, raw_email = Some ''Ann@UCSC.edu '',
                      raw_id = None, raw_name = Some ''Ann'' \<rparr> ] \<rparr>"

section \<open>Facts about dropping duplicates\<close>

lemma set_drop_dups: "set (drop_dups k seen xs) \<subseteq> set xs"
  by (induction xs arbitrary: seen) auto

lemma sorted_drop_dups:
  "sorted (map f xs) \<Longrightarrow> sorted (map f (drop_dups k seen xs))"
proof (induction xs arbitrary: seen)
  case Nil
  then show ?case by simp
next
  case (Cons x xs)
  have "\<forall>y\<in>set (drop_dups k (k x # seen) xs). f x \<le> f y"
    using Cons.prems set_drop_dups[of k "k x # seen" xs] by auto
  with Cons show ?case by auto
qed

lemma keys_drop_dups:
  "distinct (map k (drop_dups k seen xs)) \<and> k ` set (drop_dups k seen xs) \<inter> set seen = {}"
proof (induction xs arbitrary: seen)
  case Nil
  then show ?case by simp
next
  case (Cons x xs)
  show ?case
  proof (cases "k x \<in> set seen")
    case True
    then show ?thesis using Cons.IH[of seen] by simp
  next
    case False
    then show ?thesis using Cons.IH[of "k x # seen"] by auto
  qed
qed

lemma drop_dups_id:
  "distinct (map k xs) \<Longrightarrow> k ` set xs \<inter> set seen = {} \<Longrightarrow> drop_dups k seen xs = xs"
  by (induction xs arbitrary: seen) auto

lemma filter_drop_dups:
  "filter (\<lambda>y. k y = p) (drop_dups k seen xs) =
     (if p \<in> set seen then [] else take 1 (filter (\<lambda>y. k y = p) xs))"
proof (induction xs arbitrary: seen)
  case Nil
  then show ?case by simp
next
  case (Cons x xs)
  show ?case
  proof (cases "k x \<in> set seen")
    case True
    then show ?thesis using Cons.IH[of seen] by auto
  next
    case False
    then show ?thesis using Cons.IH[of "k x # seen"] by auto
  qed
qed

lemma image_drop_dups: "k ` set (drop_dups k seen xs) = k ` set xs - set seen"
  by (induction xs arbitrary: seen) auto

lemma drop_dups_first_least:
  assumes "y \<in> set (drop_dups k [] S)" "sorted (map f S)" "x' \<in> set S" "k x' = k y"
  shows "f y \<le> f x'"
proof -
  define F where "F = filter (\<lambda>z. k z = k y) S"
  have "filter (\<lambda>z. k z = k y) (drop_dups k [] S) = take 1 F"
    by (simp add: filter_drop_dups F_def)
  moreover have "y \<in> set (filter (\<lambda>z. k z = k y) (drop_dups k [] S))"
    using assms(1) by simp
  ultimately have "y \<in> set (take 1 F)" by simp
  then obtain F' where F: "F = y # F'" by (cases F) auto
  have "sorted (map f F)" unfolding F_def using assms(2) by (rule sorted_filter)
  moreover have "x' \<in> set F" using assms(3,4) by (simp add: F_def)
  ultimately show ?thesis by (auto simp: F)
qed

lemma find_filter_hd: "filter P xs = x # ys \<Longrightarrow> List.find P xs = Some x"
  by (induction xs) (auto split: if_splits)

lemma na_last_inj: "na_last a = na_last b \<longleftrightarrow> a = b"
  by (auto simp: na_last_def split: option.splits)

lemma date_ts_key_same_date:
  "att_date x = att_date y \<Longrightarrow>
     (date_ts_key x \<le> date_ts_key y) = (na_last (att_ts x) \<le> na_last (att_ts y))"
  by (simp add: date_ts_key_def)

lemma date_ts_key_eq_iff:
  "att_date x = att_date y \<Longrightarrow> (date_ts_key y = date_ts_key x) = (att_ts y = att_ts x)"
  by (auto simp: date_ts_key_def na_last_inj)

lemma sorted_dedup_same_day: "sorted (map date_ts_key (dedup_same_day df))"
  by (simp add: dedup_same_day_def drop_duplicates_def sorted_drop_dups)

lemma distinct_dedup_same_day: "distinct (map identity_date (dedup_same_day df))"
  using keys_drop_dups[of identity_date "[]"]
  by (simp add: dedup_same_day_def drop_duplicates_def)

lemma set_dedup_same_day: "set (dedup_same_day df) \<subseteq> set df"
  using set_drop_dups[of identity_date "[]" "sort_key date_ts_key df"]
  by (simp add: dedup_same_day_def drop_duplicates_def)

lemma dedup_same_day_fixed:
  "sorted (map date_ts_key t) \<Longrightarrow> distinct (map identity_date t) \<Longrightarrow> dedup_same_day t = t"
  by (simp add: dedup_same_day_def drop_duplicates_def sort_key_id_if_sorted drop_dups_id)

section \<open>Window filter\<close>

text \<open>
  C1. The claim reads: with a start date after the end date the window filter fails with a
  DateRangeError. The program has no such check and no such error: on a table that is
  empty or has at least one dated row, the two comparisons of \<^verbatim>\<open>filter_weeks\<close> can then
  hold for no row, so the result is the empty table, and deduplication of it is the empty
  table again. Amended: for every table that is empty or has a row with a date, and
  every pair of dates with the start after the end, \<^verbatim>\<open>filter_weeks\<close> returns the empty
  table and raises nothing, and so does deduplication after it.
\<close>

theorem filter_weeks_reversed_range_empty:
  assumes "end < start" and "df = [] \<or> (\<exists>r\<in>set df. att_date r \<noteq> None)"
  shows "filter_weeks df (Some start) (Some end) = Inr [] \<and>
         window_dedup df (Some start) (Some end) = Inr []"
proof -
  have dated: "\<not> (df \<noteq> [] \<and> list_all (\<lambda>r. att_date r = None) df)"
    using assms(2) by (auto simp: list_all_iff)
  have "filter (in_window start end) df = []"
    using assms(1) by (auto simp: in_window_def filter_empty_conv split: option.splits)
  then show ?thesis
    using dated
    by (simp add: window_dedup_def filter_weeks_def dedup_same_day_def drop_duplicates_def)
qed

text \<open>
  The same on the example table, and on a second table with other bounds.
\<close>

theorem filter_weeks_reversed_range_witness:
  "(1::int) < 12 \<and> (\<exists>r\<in>set example_table. att_date r \<noteq> None) \<and>
   filter_weeks example_table (Some 12) (Some 1) = Inr [] \<and>
   window_dedup example_table (Some 12) (Some 1) = Inr []"
proof -
  have h1: "(1::int) < 12" by simp
  have h2: "\<exists>r\<in>set example_table. att_date r \<noteq> None"
    by (simp add: example_table_def check_in_def)
  have h3: "example_table = [] \<or> (\<exists>r\<in>set example_table. att_date r \<noteq> None)"
    using h2 by (rule disjI2)
  show ?thesis
    by (rule conjI[OF h1 conjI[OF h2 filter_weeks_reversed_range_empty[OF h1 h3]]])
qed

theorem filter_weeks_reversed_range_no_error:
  "(3::int) > 1 \<and> filter_weeks example_windowed (Some 3) (Some 1) = Inr []
   \<and> \<not> isl (filter_weeks example_windowed (Some 3) (Some 1))"
  by (simp add: filter_weeks_def example_windowed_def check_in_def in_window_def)

section \<open>Deduplication\<close>

text \<open>
  C7. Among the rows of the table that share the identity and the date of a row \<open>r\<close>,
  \<^verbatim>\<open>dedup_same_day\<close> keeps exactly one, \<open>x\<close>. Its timestamp is the earliest of them (a
  missing timestamp counts as the latest), and among the rows with that same timestamp it
  is the first in the original order. The result is sorted by date and timestamp
  (lemma \<open>sorted_dedup_same_day\<close>).
\<close>

theorem dedup_same_day_earliest:
  assumes "r \<in> set df"
  shows "\<exists>x. filter (\<lambda>y. identity_date y = identity_date r) (dedup_same_day df) = [x]
            \<and> x \<in> set df
            \<and> (\<forall>y\<in>set df. identity_date y = identity_date r \<longrightarrow>
                   na_last (att_ts x) \<le> na_last (att_ts y))
            \<and> List.find (\<lambda>y. identity_date y = identity_date r \<and> att_ts y = att_ts x) df = Some x"
proof -
  define p where "p = identity_date r"
  define S where "S = sort_key date_ts_key df"
  define F where "F = filter (\<lambda>y. identity_date y = p) S"
  have setS: "set S = set df" by (simp add: S_def)
  have "r \<in> set F" using assms by (simp add: F_def setS p_def)
  then obtain x F' where F: "F = x # F'" by (cases F) auto
  have xF: "x \<in> set F" by (simp add: F)
  then have xdf: "x \<in> set df" and px: "identity_date x = p"
    by (auto simp: F_def setS)
  have kept: "filter (\<lambda>y. identity_date y = p) (dedup_same_day df) = [x]"
    using F by (simp add: dedup_same_day_def drop_duplicates_def filter_drop_dups
        S_def[symmetric] F_def[symmetric])
  have "sorted (map date_ts_key S)" by (simp add: S_def)
  then have "sorted (map date_ts_key F)" unfolding F_def by (rule sorted_filter)
  then have le: "\<forall>y\<in>set F. date_ts_key x \<le> date_ts_key y" by (auto simp: F)
  have same_date: "att_date y = att_date x" if "identity_date y = p" for y
    using that px by (metis identity_date_def snd_conv)
  have early: "\<forall>y\<in>set df. identity_date y = p \<longrightarrow> na_last (att_ts x) \<le> na_last (att_ts y)"
  proof (intro ballI impI)
    fix y assume "y \<in> set df" and py: "identity_date y = p"
    then have "y \<in> set F" by (simp add: F_def setS)
    then have "date_ts_key x \<le> date_ts_key y" using le by blast
    then show "na_last (att_ts x) \<le> na_last (att_ts y)"
      using same_date[OF py] by (simp add: date_ts_key_same_date)
  qed
  have "filter (\<lambda>y. identity_date y = p \<and> att_ts y = att_ts x) df
        = filter (\<lambda>y. identity_date y = p) (filter (\<lambda>y. date_ts_key y = date_ts_key x) df)"
    using same_date by (auto simp: date_ts_key_eq_iff intro!: filter_cong)
  also have "\<dots> = filter (\<lambda>y. identity_date y = p) (filter (\<lambda>y. date_ts_key y = date_ts_key x) S)"
    by (simp add: S_def sort_key_stable)
  also have "\<dots> = filter (\<lambda>y. date_ts_key y = date_ts_key x) F"
    by (simp add: F_def conj_commute)
  also have "\<dots> = x # filter (\<lambda>y. date_ts_key y = date_ts_key x) F'"
    by (simp add: F)
  finally have "List.find (\<lambda>y. identity_date y = p \<and> att_ts y = att_ts x) df = Some x"
    by (rule find_filter_hd)
  with kept xdf early show ?thesis unfolding p_def by blast
qed

theorem dedup_same_day_earliest_witness:
  "check_in 86400000000200 1 ''1'' ''S1'' \<in> set example_table \<and>
   (\<exists>x. filter (\<lambda>y. identity_date y = identity_date (check_in 86400000000200 1 ''1'' ''S1''))
              (dedup_same_day example_table) = [x]
        \<and> x \<in> set example_table
        \<and> (\<forall>y\<in>set example_table.
               identity_date y = identity_date (check_in 86400000000200 1 ''1'' ''S1'') \<longrightarrow>
               na_last (att_ts x) \<le> na_last (att_ts y))
        \<and> List.find (\<lambda>y. identity_date y = identity_date (check_in 86400000000200 1 ''1'' ''S1'')
                             \<and> att_ts y = att_ts x) example_table = Some x)"
proof -
  have h: "check_in 86400000000200 1 ''1'' ''S1'' \<in> set example_table"
    by (simp add: example_table_def)
  show ?thesis by (rule conjI[OF h dedup_same_day_earliest[OF h]])
qed

text \<open>
  C8. Filtering to the window and deduplicating is idempotent: run on its own output with
  the same bounds, it returns that output unchanged.
\<close>

theorem window_dedup_idempotent:
  assumes "window_dedup df start_iso end_iso = Inr t"
  shows "window_dedup t start_iso end_iso = Inr t"
proof -
  from assms obtain s e w where se: "start_iso = Some s" "end_iso = Some e"
    and w: "w = filter (in_window s e) df" and t: "t = dedup_same_day w"
    by (auto simp: window_dedup_def filter_weeks_def split: option.splits sum.splits if_splits)
  have "set t \<subseteq> set w" unfolding t by (rule set_dedup_same_day)
  then have inw: "\<forall>r\<in>set t. in_window s e r" by (auto simp: w)
  then have keep: "filter (in_window s e) t = t" by (simp add: filter_id_conv)
  have dated: "\<not> (t \<noteq> [] \<and> list_all (\<lambda>r. att_date r = None) t)"
  proof
    assume a: "t \<noteq> [] \<and> list_all (\<lambda>r. att_date r = None) t"
    then obtain r where r: "r \<in> set t" by (cases t) auto
    then have "att_date r = None" using a by (simp add: list_all_iff)
    moreover have "in_window s e r" using inw r by blast
    ultimately show False by (simp add: in_window_def)
  qed
  have fixed: "dedup_same_day t = t"
    unfolding t by (rule dedup_same_day_fixed[OF sorted_dedup_same_day distinct_dedup_same_day])
  show ?thesis using dated keep fixed by (simp add: window_dedup_def filter_weeks_def se)
qed

lemma example_window: "window_dedup example_table (Some 1) (Some 12) = Inr example_windowed"
  by code_simp

theorem window_dedup_idempotent_witness:
  "window_dedup example_table (Some 1) (Some 12) = Inr example_windowed \<and>
   window_dedup example_windowed (Some 1) (Some 12) = Inr example_windowed"
  using window_dedup_idempotent[OF example_window] example_window by simp

section \<open>Counts\<close>

lemma dropna_set: "set (dropna xs) = {v. Some v \<in> set xs}"
  by (induction xs) (auto simp: dropna_def split: option.splits)

lemma sorted_set_distinct: "sorted_set s = Inr ds \<Longrightarrow> distinct ds"
  by (auto simp: sorted_set_def distinct_map split: if_splits)

lemma count_in_week_le:
  assumes "distinct ds"
  shows "0 \<le> count_in_week ds week \<and> count_in_week ds week \<le> int (length week)"
proof -
  let ?P = "\<lambda>d. case d of None \<Rightarrow> False | Some v \<Rightarrow> v \<in> set week"
  have eq: "count_in_week ds week = int (length (filter ?P ds))"
    by (simp add: count_in_week_def sum_list_triv)
  have "distinct (filter ?P ds)" using assms by simp
  then have "length (filter ?P ds) = card (set (filter ?P ds))"
    by (rule distinct_card[symmetric])
  also have "\<dots> \<le> card (Some ` set week)"
    by (rule card_mono) (auto split: option.splits)
  also have "\<dots> \<le> card (set week)" by (rule card_image_le) simp
  also have "\<dots> \<le> length week" by (rule card_length)
  finally show ?thesis using eq by simp
qed

lemma traverse_Inr:
  "traverse f xs = Inr ys \<Longrightarrow> y \<in> set ys \<Longrightarrow> \<exists>x\<in>set xs. f x = Inr y"
  by (induction xs arbitrary: ys) (auto split: sum.splits)

lemma traverse_total:
  "(\<And>x. x \<in> set xs \<Longrightarrow> \<exists>y. f x = Inr y) \<Longrightarrow> \<exists>ys. traverse f xs = Inr ys"
proof (induction xs)
  case Nil
  then show ?case by simp
next
  case (Cons x xs)
  then obtain y ys where "f x = Inr y" "traverse f xs = Inr ys" by fastforce
  then show ?case by simp
qed

lemma week_lengths:
  "length (if length ld \<ge> 3 then slice 0 3 ld else ld) \<le> 3"
  "length (if length ld \<ge> 6 then slice 3 6 ld else drop 3 ld) \<le> 3"
  by (auto simp: slice_def)

lemma group_row_bounds:
  assumes "group_row df w1 w2 k = Inr c" "length w1 \<le> 3" "length w2 \<le> 3"
  shows "0 \<le> week1_count c \<and> week1_count c \<le> 3 \<and> 0 \<le> week2_count c \<and> week2_count c \<le> 3
         \<and> max_possible c = 6
         \<and> percentage c = of_int (week1_count c + week2_count c) / 6 * 100"
proof -
  from assms(1) obtain ds where
    ds: "sorted_set (map att_date (filter (\<lambda>r. att_identity r = Some k) df)) = Inr ds"
    and w1: "week1_count c = count_in_week ds w1" and w2: "week2_count c = count_in_week ds w2"
    and mp: "max_possible c = 6"
    and pc: "percentage c = of_int (count_in_week ds w1 + count_in_week ds w2) / of_int 6 * 100"
    by (auto simp: group_row_def Let_def split: sum.splits)
  have d: "distinct ds" using ds by (rule sorted_set_distinct)
  show ?thesis
    using count_in_week_le[OF d, of w1] count_in_week_le[OF d, of w2] assms(2,3) w1 w2 mp pc
    by simp
qed

lemma compute_counts_rows:
  assumes "compute_counts df = Inr (cnt, ld, w1, w2)" "c \<in> set cnt"
  shows "0 \<le> week1_count c \<and> week1_count c \<le> 3 \<and> 0 \<le> week2_count c \<and> week2_count c \<le> 3
         \<and> max_possible c = 6
         \<and> percentage c = of_int (week1_count c + week2_count c) / 6 * 100"
proof -
  define L where "L = sort (remdups (dropna (map att_date df)))"
  from assms(1) have w: "w1 = (if length L \<ge> 3 then slice 0 3 L else L)"
      "w2 = (if length L \<ge> 6 then slice 3 6 L else drop 3 L)"
    and tr: "traverse (group_row df w1 w2) (sort (remdups (dropna (map att_identity df)))) = Inr cnt"
    by (auto simp: compute_counts_def Let_def L_def split: sum.splits)
  from traverse_Inr[OF tr assms(2)] obtain k where "group_row df w1 w2 k = Inr c" by blast
  moreover have "length w1 \<le> 3" "length w2 \<le> 3" unfolding w by (rule week_lengths)+
  ultimately show ?thesis by (rule group_row_bounds)
qed

lemma window_dedup_dates:
  assumes "window_dedup df s e = Inr t" "r \<in> set t"
  shows "att_date r \<noteq> None"
proof -
  from assms(1) obtain a b where t: "t = dedup_same_day (filter (in_window a b) df)"
    by (auto simp: window_dedup_def filter_weeks_def split: option.splits sum.splits if_splits)
  have "set t \<subseteq> set (filter (in_window a b) df)"
    unfolding t by (rule set_dedup_same_day)
  with assms(2) have "in_window a b r" by auto
  then show ?thesis by (auto simp: in_window_def split: option.splits)
qed

lemma compute_counts_total:
  assumes "\<forall>r\<in>set t. att_date r \<noteq> None"
  shows "\<exists>cnt ld w1 w2. compute_counts t = Inr (cnt, ld, w1, w2)"
proof -
  have "\<exists>c. group_row t w1 w2 k = Inr c" for w1 w2 k
  proof -
    have "None \<notin> set (map att_date (filter (\<lambda>r. att_identity r = Some k) t))"
      using assms by auto
    then show ?thesis by (simp add: group_row_def sorted_set_def Let_def)
  qed
  then have "\<exists>ys. traverse (group_row t w1 w2) ks = Inr ys" for w1 w2 ks
    by (intro traverse_total) blast
  then show ?thesis
    by (auto simp: compute_counts_def Let_def split: sum.splits) (metis Inl_Inr_False)+
qed

text \<open>
  C5. On every deduplicated windowed table \<^verbatim>\<open>compute_counts\<close> returns, and each of its
  rows has both week counts between 0 and 3, \<open>max_possible = 6\<close>, and the percentage
  \<open>(week1_count + week2_count) / 6 * 100\<close>, whatever the number of lecture dates.
  Percentages are exact fractions here; the program computes them in floating point.
\<close>

theorem compute_counts_bounds:
  assumes "window_dedup df start_iso end_iso = Inr t"
  shows "\<exists>cnt lecture_dates week1 week2.
           compute_counts t = Inr (cnt, lecture_dates, week1, week2) \<and>
           (\<forall>c\<in>set cnt.
              0 \<le> week1_count c \<and> week1_count c \<le> 3 \<and>
              0 \<le> week2_count c \<and> week2_count c \<le> 3 \<and>
              max_possible c = 6 \<and>
              percentage c = of_int (week1_count c + week2_count c) / 6 * 100)"
proof -
  have "\<forall>r\<in>set t. att_date r \<noteq> None"
    using window_dedup_dates[OF assms] by blast
  then obtain cnt ld w1 w2 where cc: "compute_counts t = Inr (cnt, ld, w1, w2)"
    using compute_counts_total by blast
  show ?thesis using cc compute_counts_rows[OF cc] by blast
qed

theorem compute_counts_bounds_witness:
  "window_dedup example_table (Some 1) (Some 12) = Inr example_windowed \<and>
   (\<exists>cnt lecture_dates week1 week2.
       compute_counts example_windowed = Inr (cnt, lecture_dates, week1, week2) \<and>
       (\<forall>c\<in>set cnt.
          0 \<le> week1_count c \<and> week1_count c \<le> 3 \<and>
          0 \<le> week2_count c \<and> week2_count c \<le> 3 \<and>
          max_possible c = 6 \<and>
          percentage c = of_int (week1_count c + week2_count c) / 6 * 100))"
  by (rule conjI[OF example_window compute_counts_bounds[OF example_window]])

section \<open>Automatic choice of the join\<close>






text \<open>
  The id join of a loaded roster never raises: both of its keys are made by
  \<^verbatim>\<open>astype(str)\<close> and are text. The automatic mode raises exactly when the email merge does.
\<close>

lemma join_id_loaded_returns:
  "\<exists>res. join_id counts (load_gradebook_csv gb) = Inr res"
proof (cases "ID_col gb")
  case True
  have l: "all_missing (map ID_str (rows (load_gradebook_csv gb))) \<longrightarrow>
           rows (load_gradebook_csv gb) = []"
    using True
    by (cases "gradebook_rows gb")
       (simp_all add: all_missing_def load_gradebook_csv_def load_gradebook_row_def)
  have r: "all_missing (map id_key counts) \<longrightarrow> counts = []"
    by (cases counts) (simp_all add: all_missing_def id_key_def)
  have "\<not> key_dtypes_clash (map ID_str (rows (load_gradebook_csv gb))) (map id_key counts)"
    using l r by (auto simp: key_dtypes_clash_def)
  then show ?thesis
    by (simp add: join_id_def roster_merge_def with_coverage_def)
next
  case False
  then show ?thesis by (simp add: join_id_def load_gradebook_csv_def)
qed




section \<open>Left join and finalization\<close>

lemma left_merge_row:
  assumes "l \<in> set ls"
  shows "\<exists>c. (Some l, c) \<in> set (left_merge lk rk ls rs) \<and>
             ((\<forall>r\<in>set rs. rk r \<noteq> lk l) \<longrightarrow> c = None)"
proof (cases "filter (\<lambda>r. rk r = lk l) rs")
  case Nil
  then have "(Some l, None) \<in> set (left_merge lk rk ls rs)"
    using assms by (force simp: left_merge_def)
  then show ?thesis by blast
next
  case (Cons m ms)
  then have "(Some l, Some m) \<in> set (left_merge lk rk ls rs)"
    using assms by (force simp: left_merge_def)
  moreover have "m \<in> set (filter (\<lambda>r. rk r = lk l) rs)" by (simp add: Cons)
  then have "\<not> (\<forall>r\<in>set rs. rk r \<noteq> lk l)" by auto
  ultimately show ?thesis by blast
qed

lemma length_left_merge: "length ls \<le> length (left_merge lk rk ls rs)"
proof (induction ls)
  case Nil
  then show ?case by (simp add: left_merge_def)
next
  case (Cons l ls)
  have "1 \<le> length (case filter (\<lambda>r. rk r = lk l) rs of [] \<Rightarrow> [(Some l, None)]
                      | ms \<Rightarrow> map (\<lambda>r. (Some l, Some r)) ms)"
    by (simp split: list.splits)
  with Cons show ?case by (simp add: left_merge_def)
qed

lemma loaded_columns:
  "''__disp_name'' \<in> set (columns (load_gradebook_csv gb))"
  "''ID_str'' \<in> set (columns (load_gradebook_csv gb)) \<longleftrightarrow> ID_col gb"
  "''SIS Login ID_norm'' \<in> set (columns (load_gradebook_csv gb)) \<longleftrightarrow> SIS_Login_ID_col gb"
  "''Email_norm'' \<in> set (columns (load_gradebook_csv gb)) \<longleftrightarrow> Email_col gb"
  "''SIS Login ID'' \<in> set (columns (load_gradebook_csv gb)) \<longleftrightarrow> SIS_Login_ID_col gb"
  "''Email'' \<in> set (columns (load_gradebook_csv gb)) \<longleftrightarrow> Email_col gb"
  by (simp_all add: load_gradebook_csv_def)

lemma loaded_absent:
  assumes "r \<in> set (rows (load_gradebook_csv gb))"
  shows "\<not> ID_col gb \<Longrightarrow> ID_str r = None"
    "\<not> SIS_Login_ID_col gb \<Longrightarrow> SIS_Login_ID r = None"
    "\<not> Email_col gb \<Longrightarrow> Email r = None"
  using assms by (auto simp: load_gradebook_csv_def load_gradebook_row_def)

lemma counts_columns_mem:
  "''week1_count'' \<in> set counts_columns" "''week2_count'' \<in> set counts_columns"
  "''total_count'' \<in> set counts_columns" "''max_possible'' \<in> set counts_columns"
  "''percentage'' \<in> set counts_columns"
  "''__disp_name'' \<notin> set counts_columns" "''ID_str'' \<notin> set counts_columns"
  "''SIS Login ID'' \<notin> set counts_columns" "''Email'' \<notin> set counts_columns"
  by (simp_all add: counts_columns_def)

lemma finalize_loaded_row:
  assumes "r \<in> set (rows (load_gradebook_csv gb))"
    and "set cols = set (columns (load_gradebook_csv gb)) \<union> set counts_columns \<union> E"
    and "E \<subseteq> {''__email_norm''}"
  shows "carries r (finalize_row cols (Some r, c))"
    and "zero_filled (finalize_row cols (Some r, None))"
proof -
  have E: "''__disp_name'' \<notin> E" "''ID_str'' \<notin> E" "''SIS Login ID'' \<notin> E" "''Email'' \<notin> E"
    using assms(3) by auto
  have m: "''__disp_name'' \<in> set cols" "''ID_str'' \<in> set cols \<longleftrightarrow> ID_col gb"
    "''SIS Login ID'' \<in> set cols \<longleftrightarrow> SIS_Login_ID_col gb"
    "''Email'' \<in> set cols \<longleftrightarrow> Email_col gb"
    using E by (simp_all add: assms(2) loaded_columns counts_columns_mem)
  show "carries r (finalize_row cols (Some r, c))"
    using loaded_absent[OF assms(1)] m
    by (auto simp: carries_def finalize_row_def text_of_def)
  have n: "''week1_count'' \<in> set cols" "''week2_count'' \<in> set cols" "''total_count'' \<in> set cols"
    "''max_possible'' \<in> set cols" "''percentage'' \<in> set cols"
    by (simp_all add: assms(2) counts_columns_mem)
  show "zero_filled (finalize_row cols (Some r, None))"
    using n by (simp add: zero_filled_def finalize_row_def numeric_def fillna_def)
qed

lemma finalize_output_Some:
  "\<exists>out. finalize_output (Some m) = Inr out \<and>
         out_rows out = map (finalize_row (frame_columns m)) (frame_rows m)"
  by (simp add: finalize_output_def Let_def del: filter.simps)

lemma merge_finalize:
  assumes m: "m = merge_roster (load_gradebook_csv gb) left_on right_on extra counts"
    and ex: "set extra \<subseteq> {''__email_norm''}"
  shows "\<exists>out. finalize_output (Some m) = Inr out
           \<and> length (rows (load_gradebook_csv gb)) \<le> length (out_rows out)
           \<and> (\<forall>r\<in>set (rows (load_gradebook_csv gb)). \<exists>w\<in>set (out_rows out).
                  carries r w \<and> ((\<forall>c\<in>set counts. right_on c \<noteq> left_on r) \<longrightarrow> zero_filled w))"
proof -
  define cols where "cols = frame_columns m"
  define out where "out = map (finalize_row cols) (frame_rows m)"
  have fr: "frame_rows m = left_merge left_on right_on (rows (load_gradebook_csv gb)) counts"
    by (simp add: m merge_roster_def)
  have sc: "set cols = set (columns (load_gradebook_csv gb)) \<union> set counts_columns \<union> set extra"
    by (auto simp: cols_def m merge_roster_def)
  obtain fo where fo: "finalize_output (Some m) = Inr fo" and rows: "out_rows fo = out"
    using finalize_output_Some[of m] unfolding out_def cols_def by blast
  have len: "length (rows (load_gradebook_csv gb)) \<le> length out"
    by (simp add: out_def fr length_left_merge)
  have each: "\<exists>w\<in>set out. carries r w \<and> ((\<forall>c\<in>set counts. right_on c \<noteq> left_on r) \<longrightarrow> zero_filled w)"
    if r: "r \<in> set (rows (load_gradebook_csv gb))" for r
  proof -
    from left_merge_row[OF r, of left_on right_on counts] obtain c where
      c: "(Some r, c) \<in> set (frame_rows m)"
      and un: "(\<forall>x\<in>set counts. right_on x \<noteq> left_on r) \<longrightarrow> c = None"
      unfolding fr by blast
    have mem: "finalize_row cols (Some r, c) \<in> set out" using c by (simp add: out_def)
    have car: "carries r (finalize_row cols (Some r, c))"
      using finalize_loaded_row(1)[OF r sc ex] .
    have zer: "(\<forall>x\<in>set counts. right_on x \<noteq> left_on r) \<longrightarrow>
               zero_filled (finalize_row cols (Some r, c))"
    proof
      assume "\<forall>x\<in>set counts. right_on x \<noteq> left_on r"
      then have "c = None" using un by simp
      then show "zero_filled (finalize_row cols (Some r, c))"
        using finalize_loaded_row(2)[OF r sc ex] by simp
    qed
    show ?thesis
    proof (rule bexI[of _ "finalize_row cols (Some r, c)"])
      show "carries r (finalize_row cols (Some r, c)) \<and>
            ((\<forall>x\<in>set counts. right_on x \<noteq> left_on r) \<longrightarrow>
               zero_filled (finalize_row cols (Some r, c)))"
        by (rule conjI[OF car zer])
    qed (rule mem)
  qed
  show ?thesis
  proof (rule exI[of _ fo], intro conjI ballI)
    show "finalize_output (Some m) = Inr fo" by (rule fo)
    show "length (rows (load_gradebook_csv gb)) \<le> length (out_rows fo)"
      using len by (simp only: rows)
    fix r assume "r \<in> set (rows (load_gradebook_csv gb))"
    then show "\<exists>w\<in>set (out_rows fo). carries r w \<and>
                 ((\<forall>c\<in>set counts. right_on c \<noteq> left_on r) \<longrightarrow> zero_filled w)"
      unfolding rows by (rule each)
  qed
qed

lemma left_merge_match:
  assumes "l \<in> set ls" "r \<in> set rs" "rk r = lk l"
  shows "(Some l, Some r) \<in> set (left_merge lk rk ls rs)"
proof -
  have "r \<in> set (filter (\<lambda>r. rk r = lk l) rs)" using assms(2,3) by simp
  then obtain m ms where ms: "filter (\<lambda>r. rk r = lk l) rs = m # ms" and "r \<in> set (m # ms)"
    by (cases "filter (\<lambda>r. rk r = lk l) rs") auto
  then have "(Some l, Some r) \<in> set (case filter (\<lambda>r. rk r = lk l) rs of
                 [] \<Rightarrow> [(Some l, None)] | ms \<Rightarrow> map (\<lambda>r. (Some l, Some r)) ms)"
    by (simp only: ms list.case) auto
  then show ?thesis using assms(1) unfolding left_merge_def by auto
qed

lemma finalize_row_counts:
  assumes "set counts_columns \<subseteq> set cols"
  shows "counts_filled c (finalize_row cols (r, Some c))"
proof -
  have n: "''week1_count'' \<in> set cols" "''week2_count'' \<in> set cols" "''total_count'' \<in> set cols"
    "''max_possible'' \<in> set cols" "''percentage'' \<in> set cols"
    using assms counts_columns_mem(1-5) by blast+
  show ?thesis
    using n by (simp add: counts_filled_def finalize_row_def numeric_def fillna_def)
qed

lemma merge_finalize_matched:
  assumes m: "m = merge_roster (load_gradebook_csv gb) left_on right_on extra counts"
    and ex: "set extra \<subseteq> {''__email_norm''}"
    and r: "r \<in> set (rows (load_gradebook_csv gb))"
    and c: "c \<in> set counts" "right_on c = left_on r"
  shows "\<exists>out w. finalize_output (Some m) = Inr out \<and> w \<in> set (out_rows out)
           \<and> carries r w \<and> counts_filled c w"
proof -
  define cols where "cols = frame_columns m"
  have sc: "set cols = set (columns (load_gradebook_csv gb)) \<union> set counts_columns \<union> set extra"
    by (auto simp: cols_def m merge_roster_def)
  then have sub: "set counts_columns \<subseteq> set cols" by blast
  obtain fo where fo: "finalize_output (Some m) = Inr fo"
    and rows: "out_rows fo = map (finalize_row cols) (frame_rows m)"
    using finalize_output_Some[of m] unfolding cols_def by blast
  have "(Some r, Some c) \<in> set (frame_rows m)"
    using left_merge_match[of r "rows (load_gradebook_csv gb)" c counts right_on left_on] r c
    by (simp add: m merge_roster_def)
  then have mem: "finalize_row cols (Some r, Some c) \<in> set (out_rows fo)"
    by (simp add: rows)
  have car: "carries r (finalize_row cols (Some r, Some c))"
    using finalize_loaded_row(1)[OF r sc ex] .
  have fil: "counts_filled c (finalize_row cols (Some r, Some c))"
    using sub by (rule finalize_row_counts)
  show ?thesis
    by (rule exI[of _ fo], rule exI[of _ "finalize_row cols (Some r, Some c)"])
       (rule conjI[OF fo conjI[OF mem conjI[OF car fil]]])
qed

lemma join_id_Some:
  assumes "join_id counts roster = Inr (Some m, c)"
  shows "m = merge_roster roster ID_str id_key [] counts"
  using assms
  by (auto simp: join_id_def with_coverage_def roster_merge_def split: if_splits)

lemma join_email_Some:
  assumes "join_email counts (load_gradebook_csv gb) = Inr (Some m, c)"
  shows "m = merge_roster (load_gradebook_csv gb)
               (if SIS_Login_ID_col gb then SIS_Login_ID_norm else Email_norm)
               email_key [''__email_norm''] counts"
  using assms
  by (auto simp: join_email_def with_coverage_def roster_merge_def loaded_columns
      split: if_splits)

text \<open>
  Where a join is made, finalization keeps every roster row: the finalized table has at
  least as many rows as the roster, each roster row is carried by one of them, a roster
  row whose key equals the key of no counts row is carried by a row with \<open>week1_count\<close>,
  \<open>week2_count\<close>, \<open>total_count\<close> and \<open>percentage\<close> 0 and \<open>max_possible\<close> 6, and a roster
  row whose key equals that of a counts row is carried by a row with its numbers.
\<close>

lemma roster_join_keeps_every_row:
  assumes "join_id counts (load_gradebook_csv gb) = Inr (Some m, cov) \<and> left_on = ID_str \<and> right_on = id_key
         \<or> join_email counts (load_gradebook_csv gb) = Inr (Some m, cov)
           \<and> left_on = (if SIS_Login_ID_col gb then SIS_Login_ID_norm else Email_norm)
           \<and> right_on = email_key"
  shows "\<exists>out. finalize_output (Some m) = Inr out
         \<and> length (rows (load_gradebook_csv gb)) \<le> length (out_rows out)
         \<and> (\<forall>r\<in>set (rows (load_gradebook_csv gb)). \<exists>w\<in>set (out_rows out).
               carries r w \<and> ((\<forall>c\<in>set counts. right_on c \<noteq> left_on r) \<longrightarrow> zero_filled w))
         \<and> (\<forall>r\<in>set (rows (load_gradebook_csv gb)). \<forall>c\<in>set counts.
               right_on c = left_on r \<longrightarrow>
                 (\<exists>w\<in>set (out_rows out). carries r w \<and> counts_filled c w))"
proof -
  obtain extra where m: "m = merge_roster (load_gradebook_csv gb) left_on right_on extra counts"
    and ex: "set extra \<subseteq> {''__email_norm''}"
  proof (cases "join_id counts (load_gradebook_csv gb) = Inr (Some m, cov) \<and> left_on = ID_str
                \<and> right_on = id_key")
    case True
    then have "m = merge_roster (load_gradebook_csv gb) left_on right_on [] counts"
      using join_id_Some[of counts "load_gradebook_csv gb" m cov] by simp
    then show ?thesis using that[of "[]"] by simp
  next
    case False
    then have "m = merge_roster (load_gradebook_csv gb) left_on right_on [''__email_norm''] counts"
      using assms join_email_Some[of counts gb m cov] by auto
    then show ?thesis using that[of "[''__email_norm'']"] by simp
  qed
  from merge_finalize[OF m ex] obtain out where
    o: "finalize_output (Some m) = Inr out"
    and len: "length (rows (load_gradebook_csv gb)) \<le> length (out_rows out)"
    and un: "\<forall>r\<in>set (rows (load_gradebook_csv gb)). \<exists>w\<in>set (out_rows out).
               carries r w \<and> ((\<forall>c\<in>set counts. right_on c \<noteq> left_on r) \<longrightarrow> zero_filled w)"
    by blast
  have ma: "\<forall>r\<in>set (rows (load_gradebook_csv gb)). \<forall>c\<in>set counts.
               right_on c = left_on r \<longrightarrow>
                 (\<exists>w\<in>set (out_rows out). carries r w \<and> counts_filled c w)"
  proof (intro ballI impI)
    fix r c assume r: "r \<in> set (rows (load_gradebook_csv gb))" and c: "c \<in> set counts"
      and k: "right_on c = left_on r"
    from merge_finalize_matched[OF m ex r c k] obtain out' w where
      "finalize_output (Some m) = Inr out'" and w: "w \<in> set (out_rows out')"
      "carries r w" "counts_filled c w" by blast
    then have "out' = out" using o by simp
    with w show "\<exists>w\<in>set (out_rows out). carries r w \<and> counts_filled c w" by blast
  qed
  show ?thesis
    by (rule exI[of _ out]) (rule conjI[OF o conjI[OF len conjI[OF un ma]]])
qed

text \<open>
  C6. The claim reads: for every roster and counts table every roster row appears in the
  finalized output, and a roster row without a match appears with zeros. In the
  automatic mode, which is the default, a roster with the columns Student and ID whose
  student matches no counts row gets no output at all: the id join has coverage 0.0, the
  email join is not made and counts as 0.0, the comparison \<^verbatim>\<open>em_cov >= id_cov\<close> prefers
  it, \<^verbatim>\<open>try_join_modes\<close> returns \<^verbatim>\<open>None\<close>, and finalization raises AttributeError. The
  id mode on the same input returns the row with zeros, as the claim says.
\<close>

theorem auto_join_id_only_roster_no_match:
  "try_join_modes example_counts (load_gradebook_csv id_only_gradebook)
     = Inr (None, ''email'', Num 0) \<and>
   run_processing_join ''auto'' example_counts (load_gradebook_csv id_only_gradebook)
     = Inl AttributeError \<and>
   map_sum id out_rows
     (run_processing_join ''id'' example_counts (load_gradebook_csv id_only_gradebook))
     = Inr [ \<lparr> out_Student = Some ''Ann'', out_ID = Some ''1'', out_SIS_Login_ID = None,
                 out_Email = None, out_week1_count = Some 0, out_week2_count = Some 0,
                 out_total_count = Some 0, out_max_possible = Some 6,
                 out_percentage = Some 0 \<rparr> ]"
  by code_simp

theorem auto_join_id_only_roster_witness:
  "ID_col id_only_gradebook \<and>
   map ID_str (rows (load_gradebook_csv id_only_gradebook)) = [Some ''1''] \<and>
   map id_key example_counts = [Some ''7''] \<and>
   isl (run_processing_join ''auto'' example_counts (load_gradebook_csv id_only_gradebook)) \<and>
   \<not> isl (run_processing_join ''id'' example_counts (load_gradebook_csv id_only_gradebook))"
proof -
  have a: "ID_col id_only_gradebook" by (simp add: id_only_gradebook_def)
  have b: "map ID_str (rows (load_gradebook_csv id_only_gradebook)) = [Some ''1'']" by code_simp
  have c: "map id_key example_counts = [Some ''7'']" by code_simp
  note T = auto_join_id_only_roster_no_match
  have d: "isl (run_processing_join ''auto'' example_counts (load_gradebook_csv id_only_gradebook))"
    by (simp add: T[THEN conjunct2, THEN conjunct1])
  have e: "\<not> isl (run_processing_join ''id'' example_counts (load_gradebook_csv id_only_gradebook))"
    using T[THEN conjunct2, THEN conjunct2]
    by (cases "run_processing_join ''id'' example_counts (load_gradebook_csv id_only_gradebook)")
       simp_all
  show ?thesis by (rule conjI[OF a conjI[OF b conjI[OF c conjI[OF d e]]]])
qed

text \<open>
  C10. When the gradebook has none of the columns ID, SIS Login ID and Email, both joins
  return \<^verbatim>\<open>None\<close> with coverage 0.0, \<^verbatim>\<open>try_join_modes\<close> returns \<^verbatim>\<open>None\<close> with the mode
  email, and finalization, applied to \<^verbatim>\<open>None\<close>, fails with AttributeError: this is what
  the processing entry point returns in the automatic mode.
\<close>

theorem auto_join_without_key_columns:
  assumes "\<not> ID_col gb" "\<not> SIS_Login_ID_col gb" "\<not> Email_col gb"
  shows "try_join_modes counts (load_gradebook_csv gb) = Inr (None, ''email'', Num 0)
       \<and> finalize_output (fst (projr (try_join_modes counts (load_gradebook_csv gb))))
           = Inl AttributeError
       \<and> run_processing_join ''auto'' counts (load_gradebook_csv gb) = Inl AttributeError"
proof -
  have ji: "join_id counts (load_gradebook_csv gb) = Inr (None, Num 0)"
    using assms by (simp add: join_id_def loaded_columns)
  have je: "join_email counts (load_gradebook_csv gb) = Inr (None, Num 0)"
    using assms by (simp add: join_email_def loaded_columns)
  have t: "try_join_modes counts (load_gradebook_csv gb) = Inr (None, ''email'', Num 0)"
    by (simp add: try_join_modes_def ji je float_ge_def)
  show ?thesis by (simp add: t finalize_output_def run_processing_join_def)
qed

theorem auto_join_without_key_columns_witness:
  "\<not> ID_col names_only_gradebook \<and> \<not> SIS_Login_ID_col names_only_gradebook \<and>
   \<not> Email_col names_only_gradebook \<and>
   try_join_modes example_counts (load_gradebook_csv names_only_gradebook)
     = Inr (None, ''email'', Num 0) \<and>
   finalize_output
     (fst (projr (try_join_modes example_counts (load_gradebook_csv names_only_gradebook))))
     = Inl AttributeError \<and>
   run_processing_join ''auto'' example_counts (load_gradebook_csv names_only_gradebook)
     = Inl AttributeError"
proof -
  have h: "\<not> ID_col names_only_gradebook" "\<not> SIS_Login_ID_col names_only_gradebook"
    "\<not> Email_col names_only_gradebook"
    by (simp_all add: names_only_gradebook_def)
  show ?thesis
    by (rule conjI[OF h(1) conjI[OF h(2) conjI[OF h(3)
          auto_join_without_key_columns[OF h, of example_counts]]]])
qed

section \<open>Matrix rows\<close>

lemma fillna0_inj: "fillna0 a = fillna0 b \<longleftrightarrow> a = b"
  by (auto simp: fillna0_def split: option.splits)

lemma indicator_01: "indicator df i d = 0 \<or> indicator df i d = 1"
  by (simp add: indicator_def split: option.splits)

lemma indicator_one_iff:
  "indicator df (Some k) d = 1 \<longleftrightarrow> (\<exists>r\<in>set df. att_identity r = Some k \<and> att_date r = Some d)"
proof -
  have "identity_date ` set (drop_duplicates identity_date df) = identity_date ` set df"
    by (simp add: drop_duplicates_def image_drop_dups)
  then have "(Some k, Some d) \<in> set (map identity_date (drop_duplicates identity_date df))
             \<longleftrightarrow> (Some k, Some d) \<in> identity_date ` set df" by simp
  also have "\<dots> \<longleftrightarrow> (\<exists>r\<in>set df. att_identity r = Some k \<and> att_date r = Some d)"
    by (auto simp: identity_date_def image_iff) metis
  finally show ?thesis by (simp add: indicator_def)
qed

lemma indicator_zero_unattended:
  assumes "\<forall>r\<in>set df. att_date r \<noteq> Some d"
  shows "indicator df i d = 0"
proof (cases i)
  case None
  then show ?thesis by (simp add: indicator_def)
next
  case (Some k)
  have "indicator df (Some k) d \<noteq> 1" using assms by (simp add: indicator_one_iff)
  then show ?thesis using indicator_01[of df "Some k" d] Some by simp
qed

lemma mat_identity_row: "mat_identity (matrix_row_of df six r) = fillna0 (att_identity r)"
  by (simp add: matrix_row_of_def Let_def)

text \<open>
  C9. For a list of at most six distinct dates the matrix has exactly one row for each
  identity of the table; each row has one cell per selected date, every cell is 0 or 1,
  the cell of a date on which nobody checked in is 0, the cell of a named identity is 1
  exactly when that identity checked in on that date, \<open>total_count\<close> is the sum of the
  cells and \<open>max_possible\<close> is 6; and a row never comes after a row whose identity has
  an earlier first check-in. Only the position of the earliest timestamp of each identity
  enters the last part, so it does not depend on how the sort orders equal timestamps.
\<close>

theorem write_matrix_rows:
  assumes "distinct six_dates" "length six_dates \<le> 6"
  shows "distinct (map mat_identity (write_matrix df six_dates))
       \<and> set (map mat_identity (write_matrix df six_dates)) = (\<lambda>r. fillna0 (att_identity r)) ` set df
       \<and> (\<forall>m\<in>set (write_matrix df six_dates).
             length (mat_dates m) = length six_dates
           \<and> (\<forall>v\<in>set (mat_dates m). v = 0 \<or> v = 1)
           \<and> (\<forall>i<length six_dates.
                  (\<forall>r\<in>set df. att_date r \<noteq> Some (six_dates ! i)) \<longrightarrow> mat_dates m ! i = 0)
           \<and> (\<forall>i<length six_dates. \<forall>k. mat_identity m = Text k \<longrightarrow>
                  (mat_dates m ! i = 1) =
                  (\<exists>r\<in>set df. att_identity r = Some k \<and> att_date r = Some (six_dates ! i)))
           \<and> mat_total_count m = sum_list (mat_dates m)
           \<and> mat_max_possible m = 6)
       \<and> (\<forall>i j. i \<le> j \<and> j < length (write_matrix df six_dates) \<longrightarrow>
             (\<exists>r\<in>set df. fillna0 (att_identity r) = mat_identity (write_matrix df six_dates ! i)
                \<and> (\<forall>r'\<in>set df.
                      fillna0 (att_identity r') = mat_identity (write_matrix df six_dates ! j)
                      \<longrightarrow> ts_key r \<le> ts_key r')))"
proof -
  define S where "S = sort_key ts_key df"
  define mini where "mini = drop_dups att_identity [] S"
  define M where "M = write_matrix df six_dates"
  have M: "M = map (matrix_row_of df six_dates) mini"
    by (simp add: M_def write_matrix_def drop_duplicates_def mini_def S_def)
  have setS: "set S = set df" by (simp add: S_def)
  have sortedS: "sorted (map ts_key S)" by (simp add: S_def)
  have ids: "map mat_identity M = map (\<lambda>r. fillna0 (att_identity r)) mini"
    by (simp add: M mat_identity_row)
  have d_mini: "distinct (map att_identity mini)"
    using keys_drop_dups[of att_identity "[]" S] by (simp add: mini_def)
  have "distinct (map (\<lambda>r. fillna0 (att_identity r)) mini)"
    using d_mini by (auto simp: distinct_map inj_on_def fillna0_inj)
  then have c1: "distinct (map mat_identity M)" by (simp only: ids)
  have "att_identity ` set mini = att_identity ` set df"
    by (simp add: mini_def image_drop_dups setS)
  then have "fillna0 ` att_identity ` set mini = fillna0 ` att_identity ` set df" by simp
  then have c2: "set (map mat_identity M) = (\<lambda>r. fillna0 (att_identity r)) ` set df"
    by (simp add: ids image_image)
  have c3: "length (mat_dates m) = length six_dates
           \<and> (\<forall>v\<in>set (mat_dates m). v = 0 \<or> v = 1)
           \<and> (\<forall>i<length six_dates.
                  (\<forall>r\<in>set df. att_date r \<noteq> Some (six_dates ! i)) \<longrightarrow> mat_dates m ! i = 0)
           \<and> (\<forall>i<length six_dates. \<forall>k. mat_identity m = Text k \<longrightarrow>
                  (mat_dates m ! i = 1) =
                  (\<exists>r\<in>set df. att_identity r = Some k \<and> att_date r = Some (six_dates ! i)))
           \<and> mat_total_count m = sum_list (mat_dates m)
           \<and> mat_max_possible m = 6" if "m \<in> set M" for m
  proof -
    from that obtain r where m: "m = matrix_row_of df six_dates r" by (auto simp: M)
    have dates: "mat_dates m = map (indicator df (att_identity r)) six_dates"
      and tot: "mat_total_count m = sum_list (mat_dates m)" and mp: "mat_max_possible m = 6"
      and mi: "mat_identity m = fillna0 (att_identity r)"
      by (simp_all add: m matrix_row_of_def Let_def)
    have a: "length (mat_dates m) = length six_dates" by (simp add: dates)
    have b: "\<forall>v\<in>set (mat_dates m). v = 0 \<or> v = 1"
      using indicator_01 by (auto simp: dates)
    have c: "\<forall>i<length six_dates.
                  (\<forall>r\<in>set df. att_date r \<noteq> Some (six_dates ! i)) \<longrightarrow> mat_dates m ! i = 0"
      by (simp add: dates indicator_zero_unattended)
    have d: "\<forall>i<length six_dates. \<forall>k. mat_identity m = Text k \<longrightarrow>
                  (mat_dates m ! i = 1) =
                  (\<exists>r\<in>set df. att_identity r = Some k \<and> att_date r = Some (six_dates ! i))"
    proof (intro allI impI)
      fix i k assume i: "i < length six_dates" and "mat_identity m = Text k"
      then have "att_identity r = Some k" by (auto simp: mi fillna0_def split: option.splits)
      then show "(mat_dates m ! i = 1) =
                  (\<exists>r\<in>set df. att_identity r = Some k \<and> att_date r = Some (six_dates ! i))"
        using i by (simp add: dates indicator_one_iff)
    qed
    show ?thesis
      by (rule conjI[OF a conjI[OF b conjI[OF c conjI[OF d conjI[OF tot mp]]]]])
  qed
  have c4: "\<exists>r\<in>set df. fillna0 (att_identity r) = mat_identity (M ! i)
                \<and> (\<forall>r'\<in>set df. fillna0 (att_identity r') = mat_identity (M ! j)
                      \<longrightarrow> ts_key r \<le> ts_key r')" if "i \<le> j" "j < length M" for i j
  proof -
    have lj: "j < length mini" and li: "i < length mini" using that by (simp_all add: M)
    have mi: "mat_identity (M ! i) = fillna0 (att_identity (mini ! i))"
      and mj: "mat_identity (M ! j) = fillna0 (att_identity (mini ! j))"
      using li lj by (simp_all add: M mat_identity_row)
    have "mini ! i \<in> set mini" using li by simp
    then have idf: "mini ! i \<in> set df"
      using set_drop_dups[of att_identity "[]" S] by (auto simp: mini_def setS)
    have "sorted (map ts_key mini)" unfolding mini_def using sortedS by (rule sorted_drop_dups)
    then have ij: "ts_key (mini ! i) \<le> ts_key (mini ! j)"
      using that(1) lj by (simp add: sorted_iff_nth_mono)
    have least: "ts_key (mini ! i) \<le> ts_key r'"
      if "r' \<in> set df" "fillna0 (att_identity r') = mat_identity (M ! j)" for r'
    proof -
      have "att_identity r' = att_identity (mini ! j)" using that(2) by (simp add: mj fillna0_inj)
      moreover have "mini ! j \<in> set (drop_dups att_identity [] S)" using lj by (simp add: mini_def)
      ultimately have "ts_key (mini ! j) \<le> ts_key r'"
        using drop_dups_first_least[of "mini ! j" att_identity S ts_key r'] sortedS that(1)
        by (simp add: setS)
      with ij show ?thesis by simp
    qed
    show ?thesis
    proof (rule bexI[of _ "mini ! i"])
      show "fillna0 (att_identity (mini ! i)) = mat_identity (M ! i) \<and>
            (\<forall>r'\<in>set df. fillna0 (att_identity r') = mat_identity (M ! j)
                \<longrightarrow> ts_key (mini ! i) \<le> ts_key r')"
        using mi least by simp
    qed (rule idf)
  qed
  have c3': "\<forall>m\<in>set M.
             length (mat_dates m) = length six_dates
           \<and> (\<forall>v\<in>set (mat_dates m). v = 0 \<or> v = 1)
           \<and> (\<forall>i<length six_dates.
                  (\<forall>r\<in>set df. att_date r \<noteq> Some (six_dates ! i)) \<longrightarrow> mat_dates m ! i = 0)
           \<and> (\<forall>i<length six_dates. \<forall>k. mat_identity m = Text k \<longrightarrow>
                  (mat_dates m ! i = 1) =
                  (\<exists>r\<in>set df. att_identity r = Some k \<and> att_date r = Some (six_dates ! i)))
           \<and> mat_total_count m = sum_list (mat_dates m)
           \<and> mat_max_possible m = 6"
    by (intro ballI) (rule c3)
  have c4': "\<forall>i j. i \<le> j \<and> j < length M \<longrightarrow>
             (\<exists>r\<in>set df. fillna0 (att_identity r) = mat_identity (M ! i)
                \<and> (\<forall>r'\<in>set df. fillna0 (att_identity r') = mat_identity (M ! j)
                      \<longrightarrow> ts_key r \<le> ts_key r'))"
  proof (intro allI impI)
    fix i j assume "i \<le> j \<and> j < length M"
    then have "i \<le> j" "j < length M" by simp_all
    then show "\<exists>r\<in>set df. fillna0 (att_identity r) = mat_identity (M ! i)
                \<and> (\<forall>r'\<in>set df. fillna0 (att_identity r') = mat_identity (M ! j)
                      \<longrightarrow> ts_key r \<le> ts_key r')"
      by (rule c4)
  qed
  note all = conjI[OF c1 conjI[OF c2 conjI[OF c3' c4']]]
  show ?thesis using all unfolding M_def .
qed

theorem write_matrix_rows_witness:
  "distinct [1, 3, 4 :: date] \<and> length [1, 3, 4 :: date] \<le> 6 \<and>
   map mat_identity (write_matrix example_windowed [1, 3, 4]) = [Text ''2'', Text ''1''] \<and>
   list_all (\<lambda>m. length (mat_dates m) = 3 \<and> mat_dates m ! 2 = 0 \<and>
                 mat_total_count m = sum_list (mat_dates m) \<and> mat_max_possible m = 6)
     (write_matrix example_windowed [1, 3, 4])"
proof -
  have h1: "distinct [1, 3, 4 :: date]" by simp
  have h2: "length [1, 3, 4 :: date] \<le> 6" by simp
  note T = write_matrix_rows[OF h1 h2, of example_windowed]
  have ids: "map mat_identity (write_matrix example_windowed [1, 3, 4]) = [Text ''2'', Text ''1'']"
    by code_simp
  have un: "\<forall>r\<in>set example_windowed. att_date r \<noteq> Some ([1, 3, 4 :: date] ! 2)"
    by (simp add: example_windowed_def check_in_def)
  have rows: "\<forall>m\<in>set (write_matrix example_windowed [1, 3, 4]).
       length (mat_dates m) = 3 \<and> mat_dates m ! 2 = 0 \<and>
       mat_total_count m = sum_list (mat_dates m) \<and> mat_max_possible m = 6"
  proof
    fix m assume m: "m \<in> set (write_matrix example_windowed [1, 3, 4])"
    note R = T[THEN conjunct2, THEN conjunct2, THEN conjunct1, THEN bspec, OF m]
    have l: "length (mat_dates m) = length [1, 3, 4 :: date]" using R by (rule conjunct1)
    have z: "\<forall>i<length [1, 3, 4 :: date].
               (\<forall>r\<in>set example_windowed. att_date r \<noteq> Some ([1, 3, 4] ! i)) \<longrightarrow> mat_dates m ! i = 0"
      using R by (elim conjE)
    have t: "mat_total_count m = sum_list (mat_dates m)" using R by (elim conjE)
    have p: "mat_max_possible m = 6" using R by (elim conjE)
    have "mat_dates m ! 2 = 0" using z[rule_format, of 2] un by simp
    with l t p show "length (mat_dates m) = 3 \<and> mat_dates m ! 2 = 0 \<and>
       mat_total_count m = sum_list (mat_dates m) \<and> mat_max_possible m = 6" by simp
  qed
  have rows': "list_all (\<lambda>m. length (mat_dates m) = 3 \<and> mat_dates m ! 2 = 0 \<and>
                 mat_total_count m = sum_list (mat_dates m) \<and> mat_max_possible m = 6)
     (write_matrix example_windowed [1, 3, 4])"
    unfolding list_all_iff by (rule rows)
  show ?thesis by (rule conjI[OF h1 conjI[OF h2 conjI[OF ids rows']]])
qed

section \<open>Identity and email normalization on concrete cells\<close>

text \<open>
  C2. The claim reads: the identity of a record is the first non-empty value among the
  trimmed ID, the normalized email and the name, so that a record whose ID cell is missing
  and whose email is not gets the normalized email. \<^verbatim>\<open>load_attendance\<close> turns the ID
  column into text with \<^verbatim>\<open>astype(str)\<close> before it tests \<^verbatim>\<open>notna()\<close>: by then a missing
  ID cell is the text nan, passes the test, and becomes the identity. Below, a file with
  the columns Timestamp, Email, ID and Name and one row whose ID cell is empty.
\<close>

theorem load_attendance_missing_id_cell:
  "load_attendance example_attendance_csv =
     Inr [ \<lparr> att_ts = Some 86400000000100, att_date = Some 1,
              att_email = Some ''ann@ucsc.edu'', att_id = Some ''nan'',
              att_name = Some ''Ann'', att_identity = Some ''nan'' \<rparr> ]"
  by code_simp

theorem load_attendance_missing_id_cell_witness:
  "ts_col_found example_attendance_csv \<and> id_col_found example_attendance_csv \<and>
   raw_id (hd (raw_rows example_attendance_csv)) = None \<and>
   normalize_email (raw_email (hd (raw_rows example_attendance_csv))) = Some ''ann@ucsc.edu'' \<and>
   map_sum id (map att_identity) (load_attendance example_attendance_csv) = Inr [Some ''nan'']"
proof -
  have a: "ts_col_found example_attendance_csv" "id_col_found example_attendance_csv"
    "raw_id (hd (raw_rows example_attendance_csv)) = None"
    by (simp_all add: example_attendance_csv_def)
  have b: "normalize_email (raw_email (hd (raw_rows example_attendance_csv))) = Some ''ann@ucsc.edu''"
    by code_simp
  have c: "map_sum id (map att_identity) (load_attendance example_attendance_csv) = Inr [Some ''nan'']"
    by (simp add: load_attendance_missing_id_cell)
  show ?thesis by (rule conjI[OF a(1) conjI[OF a(2) conjI[OF a(3) conjI[OF b c]]]])
qed

text \<open>
  C3. The claim reads: an address ending in one of the listed typo domains is rewritten to
  the corrected domain. The four patterns written with a doubled backslash ask for a
  backslash followed by any character, so they match none of the typos they are listed
  for; only the pattern for a missing dot before edu rewrites its typo. Trimming,
  lowercasing and the removal of spaces work as stated.
\<close>

theorem normalize_email_typo_domains:
  "normalize_email (Some ''student@ucsc.efu'') = Some ''student@ucsc.efu'' \<and>
   normalize_email (Some ''student@ucsc.irg'') = Some ''student@ucsc.irg'' \<and>
   normalize_email (Some ''student@uscs.edu'') = Some ''student@uscs.edu'' \<and>
   normalize_email (Some ''student@gmail.con'') = Some ''student@gmail.con'' \<and>
   normalize_email (Some '' Student @UCSCedu '') = Some ''student@ucsc.edu''"
  by code_simp

theorem normalize_email_typo_domains_witness:
  "normalize_email (Some ''student@ucsc.efu'') \<noteq> Some ''student@ucsc.edu'' \<and>
   normalize_email (Some ''student@gmail.con'') \<noteq> Some ''student@gmail.com''"
  using normalize_email_typo_domains by simp

end
